theory Spec2Isabelle
  imports Main "HOL-Library.Sublist" "HOL-Library.Word"
begin

section \<open>Python values used by \<open>main.py\<close>\<close>

text \<open>
  Strings are lists of 8-bit characters (the code points below 256), file contents are
  lists of bytes, Python's unbounded integers are \<open>int\<close>.  An exception raised by the
  source is a value of \<open>py_exception\<close>; a function that may raise returns
  \<open>py_exception + 'a\<close> with \<open>Inl\<close> for the raise.
\<close>

type_synonym byte = "8 word"

datatype py_exception =
    ValueError
  | OSError
  | FileNotFoundError
  | IsADirectoryError
  | HTTPException int string

subsection \<open>\<open>int(s)\<close> and \<open>str(i)\<close>\<close>

text \<open>
  \<open>int(s)\<close> in base ten: white space around the literal is skipped, one sign may come
  first, then decimal digits, where a single underscore may stand between two digits.
  Anything else raises \<open>ValueError\<close>.  (The interpreter's configurable cap on the number
  of digits of a literal is not part of the model.)
\<close>

definition is_space :: "char \<Rightarrow> bool" where
  "is_space c = (c \<in> set [CHR 0x09, CHR 0x0A, CHR 0x0B, CHR 0x0C, CHR 0x0D, CHR 0x20, CHR 0x85, CHR 0xA0])"

definition is_digit :: "char \<Rightarrow> bool" where
  "is_digit c = (48 \<le> (of_char c :: nat) \<and> (of_char c :: nat) \<le> 57)"

definition digit_val :: "char \<Rightarrow> nat" where
  "digit_val c = of_char c - 48"

definition digit_char :: "nat \<Rightarrow> char" where
  "digit_char d = ''0123456789'' ! d"

fun digits_value :: "nat \<Rightarrow> string \<Rightarrow> nat option" where
  "digits_value acc [] = None"
| "digits_value acc (c # cs) =
     (if \<not> is_digit c then None
      else (case cs of
              [] \<Rightarrow> Some (10 * acc + digit_val c)
            | d # ds \<Rightarrow>
                if d = CHR ''_'' then digits_value (10 * acc + digit_val c) ds
                else digits_value (10 * acc + digit_val c) cs))"

definition strip :: "string \<Rightarrow> string" where
  "strip s = rev (dropWhile is_space (rev (dropWhile is_space s)))"

definition py_int :: "string \<Rightarrow> py_exception + int" where
  "py_int s =
     (case strip s of
        [] \<Rightarrow> Inl ValueError
      | c # cs \<Rightarrow>
          if c = CHR ''-'' then
            (case digits_value 0 cs of None \<Rightarrow> Inl ValueError | Some n \<Rightarrow> Inr (- int n))
          else if c = CHR ''+'' then
            (case digits_value 0 cs of None \<Rightarrow> Inl ValueError | Some n \<Rightarrow> Inr (int n))
          else
            (case digits_value 0 (c # cs) of None \<Rightarrow> Inl ValueError | Some n \<Rightarrow> Inr (int n)))"

function digits_of :: "nat \<Rightarrow> string" where
  "digits_of n = (if n < 10 then [digit_char n] else digits_of (n div 10) @ [digit_char (n mod 10)])"
  by pat_completeness auto
termination
  by (relation "measure id") auto

declare digits_of.simps [simp del]

definition py_str :: "int \<Rightarrow> string" where
  "py_str i = (if i < 0 then CHR ''-'' # digits_of (nat (- i)) else digits_of (nat i))"

subsection \<open>\<open>str.replace\<close>, \<open>str.split\<close> and tuple unpacking\<close>

text \<open>
  \<open>s.replace(old, new)\<close> rewrites the occurrences of \<open>old\<close> found scanning from the
  left, without overlap; an empty \<open>old\<close> matches before every character and at the end.
\<close>

fun replace_scan :: "string \<Rightarrow> string \<Rightarrow> string \<Rightarrow> string" where
  "replace_scan old new [] = []"
| "replace_scan old new (c # cs) =
     (if old \<noteq> [] \<and> prefix old (c # cs)
      then new @ replace_scan old new (drop (length old) (c # cs))
      else c # replace_scan old new cs)"

definition py_replace :: "string \<Rightarrow> string \<Rightarrow> string \<Rightarrow> string" where
  "py_replace old new s =
     (if old = [] then new @ concat (map (\<lambda>c. c # new) s) else replace_scan old new s)"

text \<open>
  \<open>s.split(sep)\<close> cuts at the occurrences of \<open>sep\<close> found scanning from the left and
  keeps empty pieces; an empty separator raises \<open>ValueError\<close>.
\<close>

fun split_scan :: "string \<Rightarrow> string \<Rightarrow> string list" where
  "split_scan sep [] = [[]]"
| "split_scan sep (c # cs) =
     (if sep \<noteq> [] \<and> prefix sep (c # cs)
      then [] # split_scan sep (drop (length sep) (c # cs))
      else (case split_scan sep cs of
              [] \<Rightarrow> [[c]]
            | p # ps \<Rightarrow> (c # p) # ps))"

definition py_split :: "string \<Rightarrow> string \<Rightarrow> py_exception + string list" where
  "py_split sep s = (if sep = [] then Inl ValueError else Inr (split_scan sep s))"

text \<open>\<open>a, b = xs\<close> raises \<open>ValueError\<close> unless \<open>xs\<close> has exactly two items.\<close>

fun unpack2 :: "'a list \<Rightarrow> py_exception + ('a \<times> 'a)" where
  "unpack2 [a, b] = Inr (a, b)"
| "unpack2 _ = Inl ValueError"

section \<open>\<open>get_range_header\<close>\<close>

text \<open>
  The body of the \<open>try\<close> block of \<open>get_range_header\<close>.  Every statement that can raise
  is a branch: the unpacking of the split, the two \<open>int\<close> conversions, and the explicit
  \<open>raise HTTPException(status_code=416, detail="Invalid range")\<close>.
\<close>

definition get_range_header_try :: "string \<Rightarrow> int \<Rightarrow> py_exception + (int \<times> int \<times> bool)" where
  "get_range_header_try range_header file_size =
     (let range_str = py_replace ''bytes='' [] range_header in
      case py_split ''-'' range_str of
        Inl e \<Rightarrow> Inl e
      | Inr parts \<Rightarrow>
     (case unpack2 parts of
        Inl e \<Rightarrow> Inl e
      | Inr (start_s, end_s) \<Rightarrow>
     (case py_int start_s of
        Inl e \<Rightarrow> Inl e
      | Inr start \<Rightarrow>
     (case (if end_s \<noteq> [] then py_int end_s else Inr (file_size - 1)) of
        Inl e \<Rightarrow> Inl e
      | Inr end' \<Rightarrow>
          if start \<ge> file_size \<or> end' \<ge> file_size \<or> start > end'
          then Inl (HTTPException 416 ''Invalid range'')
          else Inr (start, end', True)))))"

text \<open>
  \<open>except Exception: return 0, file_size - 1, False\<close>.  Every constructor of
  \<open>py_exception\<close> is a subclass of \<open>Exception\<close> in the source (\<open>HTTPException\<close>
  included), so the handler takes every \<open>Inl\<close>.
\<close>

definition get_range_header :: "string \<Rightarrow> int \<Rightarrow> int \<times> int \<times> bool" where
  "get_range_header range_header file_size =
     (case get_range_header_try range_header file_size of
        Inl e \<Rightarrow> (0, file_size - 1, False)
      | Inr r \<Rightarrow> r)"

section \<open>The host: file system, path resolution, mime database\<close>

text \<open>
  What the source takes from the operating system and from libraries is a parameter of
  the model: \<open>resolve\<close> stands for \<open>(Path("/") / path).resolve()\<close> rendered as a string,
  \<open>lookup\<close> for the file system at a resolved path (\<open>None\<close> when nothing exists
  there), \<open>guess_type\<close> for the first component of \<open>mimetypes.guess_type\<close>, and
  \<open>naturalsize\<close> for \<open>humanize.naturalsize\<close>.
\<close>

datatype node = File "byte list" | Directory

record host =
  resolve :: "string \<Rightarrow> string"
  lookup :: "string \<Rightarrow> node option"
  guess_type :: "string \<Rightarrow> string option"
  naturalsize :: "int \<Rightarrow> string"

subsection \<open>Binary file handles\<close>

record file_handle =
  contents :: "byte list"
  cursor :: nat

definition open_rb :: "host \<Rightarrow> string \<Rightarrow> py_exception + file_handle" where
  "open_rb h file_path =
     (case lookup h file_path of
        None \<Rightarrow> Inl FileNotFoundError
      | Some Directory \<Rightarrow> Inl IsADirectoryError
      | Some (File d) \<Rightarrow> Inr \<lparr>contents = d, cursor = 0\<rparr>)"

text \<open>\<open>f.seek(offset)\<close>: a negative offset raises, one past the end is accepted.\<close>

definition f_seek :: "file_handle \<Rightarrow> int \<Rightarrow> py_exception + file_handle" where
  "f_seek f offset = (if offset < 0 then Inl OSError else Inr (f\<lparr>cursor := nat offset\<rparr>))"

text \<open>
  \<open>f.read(n)\<close>: up to \<open>n\<close> bytes from the cursor, all the remaining bytes when \<open>n\<close> is
  negative, the empty bytes object at the end of the file.
\<close>

definition f_read :: "file_handle \<Rightarrow> int \<Rightarrow> byte list \<times> file_handle" where
  "f_read f n =
     (let rest = drop (cursor f) (contents f);
          chunk = (if n < 0 then rest else take (nat n) rest)
      in (chunk, f\<lparr>cursor := cursor f + length chunk\<rparr>))"

section \<open>\<open>async_iterate_file_chunks\<close>\<close>

text \<open>
  The \<open>while True\<close> loop of the generator: read, leave on an empty chunk, yield.  The
  model returns the list of the chunks yielded, in order.
\<close>

function read_chunks :: "file_handle \<Rightarrow> int \<Rightarrow> byte list list" where
  "read_chunks f chunk_size =
     (case f_read f chunk_size of
        (chunk, f') \<Rightarrow> if chunk = [] then [] else chunk # read_chunks f' chunk_size)"
  by pat_completeness auto
termination
  by (relation "measure (\<lambda>(f, n). length (contents f) - cursor f)")
     (auto simp: f_read_def Let_def split: if_splits)

declare read_chunks.simps [simp del]

definition default_chunk_size :: int where
  "default_chunk_size = 1024 * 1024"

definition async_iterate_file_chunks ::
    "host \<Rightarrow> string \<Rightarrow> int \<Rightarrow> int \<Rightarrow> py_exception + byte list list" where
  "async_iterate_file_chunks h file_path start chunk_size =
     (case open_rb h file_path of
        Inl e \<Rightarrow> Inl e
      | Inr f \<Rightarrow>
          (case f_seek f start of
             Inl e \<Rightarrow> Inl e
           | Inr f' \<Rightarrow> Inr (read_chunks f' chunk_size)))"

section \<open>\<open>get_file_info\<close>\<close>

text \<open>\<open>Path.name\<close> is the last component, \<open>Path.suffix\<close> its part from the last dot on,
  empty when that dot is the first or the last character of the name.\<close>

definition path_name :: "string \<Rightarrow> string" where
  "path_name p = rev (takeWhile (\<lambda>c. c \<noteq> CHR ''/'') (rev p))"

definition path_suffix :: "string \<Rightarrow> string" where
  "path_suffix p =
     (let nm = path_name p;
          ext = rev (takeWhile (\<lambda>c. c \<noteq> CHR ''.'') (rev nm));
          i = length nm - length ext - 1
      in if CHR ''.'' \<in> set nm \<and> 0 < i \<and> i < length nm - 1 then drop i nm else [])"

definition lower_char :: "char \<Rightarrow> char" where
  "lower_char c =
     (let n = (of_char c :: nat)
      in if (65 \<le> n \<and> n \<le> 90) \<or> (192 \<le> n \<and> n \<le> 222 \<and> n \<noteq> 215)
         then char_of (n + 32) else c)"

definition lower :: "string \<Rightarrow> string" where
  "lower s = map lower_char s"

definition mime_map :: "(string \<times> string) list" where
  "mime_map =
     [(''.txt'', ''text/plain''),
      (''.log'', ''text/plain''),
      (''.conf'', ''text/plain''),
      (''.sh'', ''text/x-shellscript''),
      (''.bashrc'', ''text/plain''),
      (''.profile'', ''text/plain''),
      (''.pdf'', ''application/pdf''),
      (''.json'', ''application/json''),
      (''.xml'', ''application/xml''),
      (''.html'', ''text/html''),
      (''.css'', ''text/css''),
      (''.js'', ''application/javascript''),
      (''.mp4'', ''video/mp4''),
      (''.mkv'', ''video/x-matroska''),
      (''.avi'', ''video/x-msvideo''),
      (''.mov'', ''video/quicktime''),
      (''.webm'', ''video/webm''),
      (''.mp3'', ''audio/mpeg''),
      (''.wav'', ''audio/wav''),
      (''.ogg'', ''audio/ogg'')]"

record FileInfo =
  name :: string
  path :: string
  is_dir :: bool
  size_h :: string
  size_bytes :: int
  mime_type :: "string option"

text \<open>Truth value of a \<open>str | None\<close>: \<open>None\<close> and the empty string are false.\<close>

definition truthy :: "string option \<Rightarrow> bool" where
  "truthy v = (case v of None \<Rightarrow> False | Some s \<Rightarrow> s \<noteq> [])"

definition get_file_info :: "host \<Rightarrow> string \<Rightarrow> py_exception + FileInfo" where
  "get_file_info h file_path =
     (let dir = (lookup h file_path = Some Directory) in
      case (if \<not> dir
            then (case lookup h file_path of
                    Some (File d) \<Rightarrow> Inr (int (length d))
                  | _ \<Rightarrow> Inl FileNotFoundError)
            else Inr 0) of
        Inl e \<Rightarrow> Inl e
      | Inr sz \<Rightarrow>
          let guessed = (if \<not> dir then guess_type h file_path else None);
              mime =
                (if \<not> truthy guessed \<and> \<not> dir
                 then (let extension = lower (path_suffix file_path)
                       in Some (case map_of mime_map extension of
                                  Some m \<Rightarrow> m
                                | None \<Rightarrow> ''application/octet-stream''))
                 else guessed)
          in Inr \<lparr>name = path_name file_path, path = file_path, is_dir = dir,
                  size_h = naturalsize h sz, size_bytes = sz, mime_type = mime\<rparr>)"

section \<open>\<open>view_file\<close>\<close>

text \<open>
  The value handed to \<open>StreamingResponse\<close>: the status code, the header dictionary and
  the chunk generator (run to its end).
\<close>

record response =
  status_code :: int
  headers :: "string \<rightharpoonup> string"
  content :: "py_exception + byte list list"

text \<open>
  \<open>get_range_header(range, file_size) if range else (0, file_size - 1, False)\<close>
\<close>

definition requested_range :: "string option \<Rightarrow> int \<Rightarrow> int \<times> int \<times> bool" where
  "requested_range rng file_size =
     (if truthy rng then get_range_header (the rng) file_size else (0, file_size - 1, False))"

text \<open>
  The only raise inside the \<open>try\<close> block of \<open>view_file\<close> is the 404, an
  \<open>HTTPException\<close>, which the first handler re-raises unchanged; \<open>get_range_header\<close>
  returns on every input and the generator is not started before the function returns.
\<close>

definition view_file :: "host \<Rightarrow> string \<Rightarrow> string option \<Rightarrow> py_exception + response" where
  "view_file h path_arg rng =
     (let full_path = resolve h path_arg in
      case lookup h full_path of
        None \<Rightarrow> Inl (HTTPException 404 ''File not found'')
      | Some Directory \<Rightarrow> Inl (HTTPException 404 ''File not found'')
      | Some (File d) \<Rightarrow>
          (let file_size = int (length d);
               mime = (if truthy (guess_type h full_path) then the (guess_type h full_path)
                       else ''application/octet-stream'')
           in case requested_range rng file_size of
                (start, end', is_partial) \<Rightarrow>
                  (let content_length = end' - start + 1;
                       hdrs = [''Content-Type'' \<mapsto> mime,
                               ''Accept-Ranges'' \<mapsto> ''bytes'',
                               ''Content-Length'' \<mapsto> py_str content_length];
                       status = (if is_partial then 206 else 200);
                       hdrs = (if is_partial
                               then hdrs(''Content-Range'' \<mapsto>
                                      ''bytes '' @ py_str start @ ''-'' @ py_str end' @ ''/'' @ py_str file_size)
                               else hdrs)
                   in Inr \<lparr>status_code = status, headers = hdrs,
                           content = async_iterate_file_chunks h full_path start default_chunk_size\<rparr>)))"

section \<open>Auxiliary notions for the statements\<close>

text \<open>The number a string of decimal digits denotes, read left to right from \<open>acc\<close>.\<close>

definition decimal :: "nat \<Rightarrow> string \<Rightarrow> nat" where
  "decimal acc ds = foldl (\<lambda>a c. 10 * a + digit_val c) acc ds"

text \<open>
  A header is \<^emph>\<open>malformed\<close> when, after every occurrence of \<open>bytes=\<close> is deleted, it does
  not hold exactly one dash, or the text before the dash is not an integer literal, or
  the text after the dash is neither empty nor an integer literal.
\<close>

definition malformed :: "string \<Rightarrow> bool" where
  "malformed range_header =
     (let r = py_replace ''bytes='' [] range_header;
          s = takeWhile (\<lambda>c. c \<noteq> CHR ''-'') r;
          e = drop (Suc (length s)) r
      in count_list r CHR ''-'' \<noteq> 1 \<or> isl (py_int s) \<or> (e \<noteq> [] \<and> isl (py_int e)))"

text \<open>
  A host with two regular files of the same content, \<open>/movie.mkv\<close> and \<open>/server.log\<close>,
  and the root directory; its mime database knows the type of the first file and has no
  entry for the second.  It serves the concrete instances below.
\<close>

definition sample_host :: "byte list \<Rightarrow> host" where
  "sample_host d =
     \<lparr>resolve = (\<lambda>p. CHR ''/'' # p),
      lookup = (\<lambda>p. if p = ''/movie.mkv'' \<or> p = ''/server.log'' then Some (File d)
                     else if p = ''/'' then Some Directory else None),
      guess_type = (\<lambda>p. if p = ''/movie.mkv'' then Some ''video/x-matroska'' else None),
      naturalsize = py_str\<rparr>"

section \<open>Decimal conversion\<close>

lemma digit_cases: "d < 10 \<Longrightarrow> d \<in> {0, 1, 2, 3, 4, 5, 6, 7, 8, 9 :: nat}"
  by auto

lemma is_digit_digit_char: "d < 10 \<Longrightarrow> is_digit (digit_char d)"
  by (drule digit_cases) (auto simp: is_digit_def digit_char_def)

lemma digit_val_digit_char: "d < 10 \<Longrightarrow> digit_val (digit_char d) = d"
  by (drule digit_cases) (auto simp: digit_val_def digit_char_def)

lemma is_digit_not_special:
  "is_digit c \<Longrightarrow> \<not> is_space c \<and> c \<noteq> CHR ''-'' \<and> c \<noteq> CHR ''+'' \<and> c \<noteq> CHR ''_'' \<and> c \<noteq> CHR ''b''"
  by (auto simp: is_digit_def is_space_def)

lemma digits_value_all_digits:
  "ds \<noteq> [] \<Longrightarrow> \<forall>c\<in>set ds. is_digit c \<Longrightarrow> digits_value acc ds = Some (decimal acc ds)"
proof (induction ds arbitrary: acc)
  case Nil
  then show ?case by simp
next
  case (Cons c cs)
  show ?case
  proof (cases cs)
    case Nil
    with Cons.prems show ?thesis by (simp add: decimal_def)
  next
    case (Cons d ds)
    with Cons.prems have "d \<noteq> CHR ''_''" using is_digit_not_special by auto
    with Cons Cons.prems Cons.IH [of "10 * acc + digit_val c"] show ?thesis
      by (simp add: decimal_def)
  qed
qed

lemma digits_of_digits: "\<forall>c\<in>set (digits_of n). is_digit c"
proof (induction n rule: digits_of.induct)
  case (1 n)
  show ?case
  proof (cases "n < 10")
    case True
    then show ?thesis by (subst digits_of.simps) (simp add: is_digit_digit_char)
  next
    case False
    with 1 show ?thesis by (subst digits_of.simps) (simp add: is_digit_digit_char)
  qed
qed

lemma digits_of_not_Nil: "digits_of n \<noteq> []"
  by (subst digits_of.simps) simp

lemma decimal_digits_of: "decimal 0 (digits_of n) = n"
proof (induction n rule: digits_of.induct)
  case (1 n)
  show ?case
  proof (cases "n < 10")
    case True
    then show ?thesis by (subst digits_of.simps) (simp add: decimal_def digit_val_digit_char)
  next
    case False
    with 1 have "decimal 0 (digits_of (n div 10)) = n div 10" by simp
    with False show ?thesis
      by (subst digits_of.simps) (simp add: decimal_def digit_val_digit_char)
  qed
qed

lemma strip_no_space: "s \<noteq> [] \<Longrightarrow> \<not> is_space (hd s) \<Longrightarrow> \<not> is_space (last s) \<Longrightarrow> strip s = s"
proof -
  assume a: "s \<noteq> []" "\<not> is_space (hd s)" "\<not> is_space (last s)"
  then have 1: "dropWhile is_space s = s" by (cases s) auto
  from a have "rev s \<noteq> []" "\<not> is_space (hd (rev s))" by (auto simp: hd_rev)
  then have "dropWhile is_space (rev s) = rev s" by (cases "rev s") auto
  with 1 show ?thesis by (simp add: strip_def)
qed

lemma strip_digits: "ds \<noteq> [] \<Longrightarrow> \<forall>c\<in>set ds. is_digit c \<Longrightarrow> strip ds = ds"
  using is_digit_not_special by (intro strip_no_space) auto

lemma py_int_digits:
  assumes "ds \<noteq> []" "\<forall>c\<in>set ds. is_digit c"
  shows "py_int ds = Inr (int (decimal 0 ds))"
proof -
  obtain c cs where ds: "ds = c # cs" using assms(1) by (cases ds) auto
  have c: "c \<noteq> CHR ''-''" "c \<noteq> CHR ''+''" using assms(2) ds is_digit_not_special by auto
  have "digits_value 0 (c # cs) = Some (decimal 0 ds)"
    using digits_value_all_digits [OF assms] ds by simp
  then show ?thesis
    using c ds strip_digits [OF assms] by (simp add: py_int_def)
qed

lemma py_int_py_str: "py_int (py_str i) = Inr i"
proof (cases "i < 0")
  case False
  then show ?thesis
    using py_int_digits [OF digits_of_not_Nil digits_of_digits, of "nat i"]
    by (simp add: py_str_def decimal_digits_of)
next
  case True
  let ?ds = "digits_of (nat (- i))"
  have "\<not> is_space (last ?ds)"
    using digits_of_digits [of "nat (- i)"] digits_of_not_Nil [of "nat (- i)"] is_digit_not_special
    by (meson last_in_set)
  then have "strip (CHR ''-'' # ?ds) = CHR ''-'' # ?ds"
    using digits_of_not_Nil [of "nat (- i)"] by (intro strip_no_space) (auto simp: is_space_def)
  moreover have "digits_value 0 ?ds = Some (nat (- i))"
    using digits_value_all_digits [OF digits_of_not_Nil digits_of_digits, of 0 "nat (- i)"]
    by (simp add: decimal_digits_of)
  ultimately show ?thesis using True by (simp add: py_int_def py_str_def)
qed

lemma py_str_inject: "py_str a = py_str b \<Longrightarrow> a = b"
proof -
  assume "py_str a = py_str b"
  then have "py_int (py_str a) = py_int (py_str b)" by (rule arg_cong)
  then show "a = b" unfolding py_int_py_str by simp
qed

section \<open>Splitting, replacing and unpacking\<close>

lemma py_int_empty: "py_int [] = Inl ValueError"
  by (simp add: py_int_def strip_def)

lemma split_scan_not_Nil: "split_scan sep s \<noteq> []"
  by (induction sep s rule: split_scan.induct) (auto split: list.splits)

lemma suffix_form_raises:
  "get_range_header_try (''bytes=-'' @ n) file_size = Inl ValueError"
proof -
  have r: "py_replace ''bytes='' [] (''bytes=-'' @ n) = CHR ''-'' # replace_scan ''bytes='' [] n"
    by (simp add: py_replace_def)
  obtain p ps where ps: "split_scan ''-'' (replace_scan ''bytes='' [] n) = p # ps"
    using split_scan_not_Nil by (cases "split_scan ''-'' (replace_scan ''bytes='' [] n)") auto
  show ?thesis
  proof (cases ps)
    case Nil
    then show ?thesis
      using ps r by (simp add: get_range_header_try_def py_split_def py_int_empty)
  next
    case (Cons q qs)
    then show ?thesis
      using ps r by (simp add: get_range_header_try_def py_split_def)
  qed
qed

lemma replace_scan_no_b: "CHR ''b'' \<notin> set s \<Longrightarrow> replace_scan ''bytes='' [] s = s"
  by (induction s) auto

lemma py_replace_prefixed:
  "py_replace ''bytes='' [] (''bytes='' @ s) = replace_scan ''bytes='' [] s"
  by (simp add: py_replace_def)

lemma split_dash_none: "CHR ''-'' \<notin> set s \<Longrightarrow> split_scan ''-'' s = [s]"
  by (induction s) auto

lemma split_dash_first:
  "CHR ''-'' \<notin> set a \<Longrightarrow> split_scan ''-'' (a @ CHR ''-'' # b) = a # split_scan ''-'' b"
  by (induction a) auto

lemma split_dash_parts: "p \<in> set (split_scan ''-'' s) \<Longrightarrow> CHR ''-'' \<notin> set p"
proof (induction s arbitrary: p)
  case Nil
  then show ?case by simp
next
  case (Cons c cs)
  show ?case
  proof (cases "c = CHR ''-''")
    case True
    with Cons show ?thesis by auto
  next
    case False
    obtain q qs where q: "split_scan ''-'' cs = q # qs"
      using split_scan_not_Nil by (cases "split_scan ''-'' cs") auto
    with False Cons.prems have "p = c # q \<or> p \<in> set qs" by auto
    with Cons.IH q False show ?thesis by auto
  qed
qed

lemma split_dash_length: "length (split_scan ''-'' s) = Suc (count_list s CHR ''-'')"
proof (induction s)
  case Nil
  then show ?case by simp
next
  case (Cons c cs)
  obtain q qs where q: "split_scan ''-'' cs = q # qs"
    using split_scan_not_Nil by (cases "split_scan ''-'' cs") auto
  with Cons show ?case by auto
qed

lemma split_dash_two:
  assumes "count_list s CHR ''-'' = 1"
  shows "split_scan ''-'' s =
           [takeWhile (\<lambda>c. c \<noteq> CHR ''-'') s,
            drop (Suc (length (takeWhile (\<lambda>c. c \<noteq> CHR ''-'') s))) s]"
proof -
  let ?a = "takeWhile (\<lambda>c. c \<noteq> CHR ''-'') s"
  let ?b = "drop (Suc (length ?a)) s"
  have "CHR ''-'' \<in> set s" using assms by (metis count_list_0_iff zero_neq_one)
  then have ne: "dropWhile (\<lambda>c. c \<noteq> CHR ''-'') s \<noteq> []"
    by (simp add: dropWhile_eq_Nil_conv)
  then have hd: "hd (dropWhile (\<lambda>c. c \<noteq> CHR ''-'') s) = CHR ''-''"
    using hd_dropWhile [of "\<lambda>c. c \<noteq> CHR ''-''" s] by simp
  have "?b = tl (dropWhile (\<lambda>c. c \<noteq> CHR ''-'') s)"
    by (simp add: dropWhile_eq_drop drop_Suc tl_drop)
  with ne hd have "dropWhile (\<lambda>c. c \<noteq> CHR ''-'') s = CHR ''-'' # ?b"
    by (metis list.collapse)
  then have s: "s = ?a @ CHR ''-'' # ?b"
    by (metis takeWhile_dropWhile_id)
  have a: "CHR ''-'' \<notin> set ?a" by (auto dest: set_takeWhileD)
  have "count_list s CHR ''-'' = count_list ?a CHR ''-'' + count_list (CHR ''-'' # ?b) CHR ''-''"
    by (subst s) (simp only: count_list_append)
  with assms a have "count_list ?b CHR ''-'' = 0" by (simp add: count_list_0_iff)
  then have b: "CHR ''-'' \<notin> set ?b" by (simp add: count_list_0_iff)
  have "split_scan ''-'' (?a @ CHR ''-'' # ?b) = [?a, ?b]"
    using split_dash_first [OF a] split_dash_none [OF b] by simp
  with s show ?thesis by simp
qed

section \<open>The shape of the parser's result\<close>


lemma unpack2_length: "length xs \<noteq> 2 \<Longrightarrow> unpack2 xs = Inl ValueError"
  by (cases xs rule: unpack2.cases) auto

lemma get_range_header_try_many:
  assumes "count_list (py_replace ''bytes='' [] h) CHR ''-'' \<noteq> 1"
  shows "get_range_header_try h fs = Inl ValueError"
proof -
  have "length (split_scan ''-'' (py_replace ''bytes='' [] h)) \<noteq> 2"
    using assms by (simp add: split_dash_length)
  then show ?thesis
    by (simp add: get_range_header_try_def py_split_def unpack2_length)
qed

lemma get_range_header_try_two:
  fixes h :: string
  defines "r \<equiv> py_replace ''bytes='' [] h"
  defines "s \<equiv> takeWhile (\<lambda>c. c \<noteq> CHR ''-'') r"
  defines "e \<equiv> drop (Suc (length s)) r"
  assumes one: "count_list r CHR ''-'' = 1"
  shows "get_range_header_try h fs =
     (case py_int s of
        Inl x \<Rightarrow> Inl x
      | Inr start \<Rightarrow>
     (case (if e \<noteq> [] then py_int e else Inr (fs - 1)) of
        Inl x \<Rightarrow> Inl x
      | Inr end' \<Rightarrow>
          if start \<ge> fs \<or> end' \<ge> fs \<or> start > end'
          then Inl (HTTPException 416 ''Invalid range'')
          else Inr (start, end', True)))"
proof -
  have "split_scan ''-'' r = [s, e]"
    using split_dash_two [OF one] by (simp add: s_def e_def)
  then show ?thesis
    by (simp add: get_range_header_try_def py_split_def r_def [symmetric])
qed


lemma digits_value_step:
  "digits_value acc (c # d # ds) =
     (if \<not> is_digit c then None
      else if d = CHR ''_'' then digits_value (10 * acc + digit_val c) ds
      else digits_value (10 * acc + digit_val c) (d # ds))"
  by (subst digits_value.simps) simp

lemma digits_value_chars:
  "digits_value acc s = Some v \<Longrightarrow> \<forall>c\<in>set s. is_digit c \<or> c = CHR ''_''"
proof (induction s arbitrary: acc v rule: induct_list012)
  case 1
  then show ?case by simp
next
  case (2 x)
  then show ?case by (simp split: if_splits)
next
  case (3 x y zs)
  from "3.prems" have x: "is_digit x"
    by (cases "is_digit x") (simp_all only: digits_value_step if_True if_False not_True_eq_False not_False_eq_True option.distinct)
  show ?case
  proof (cases "y = CHR ''_''")
    case True
    with "3.prems" x have "digits_value (10 * acc + digit_val x) zs = Some v"
      by (simp only: digits_value_step if_True if_False not_True_eq_False refl simp_thms)
    then have "\<forall>c\<in>set zs. is_digit c \<or> c = CHR ''_''" by (rule "3.IH"(1))
    with x True show ?thesis by simp
  next
    case False
    with "3.prems" x have "digits_value (10 * acc + digit_val x) (y # zs) = Some v"
      by (simp only: digits_value_step if_True if_False not_True_eq_False refl simp_thms)
    then have "\<forall>c\<in>set (y # zs). is_digit c \<or> c = CHR ''_''" by (rule "3.IH"(2))
    with x show ?thesis by simp
  qed
qed

lemma set_strip_subset: "set (strip s) \<subseteq> set s"
  by (auto simp: strip_def dest!: set_dropWhileD)

lemma set_subset_dropWhile: "set s \<subseteq> set (dropWhile P s) \<union> {c. P c}"
  by (induction s) auto

lemma set_subset_strip: "set s \<subseteq> set (strip s) \<union> {c. is_space c}"
proof -
  have "set s \<subseteq> set (dropWhile is_space s) \<union> {c. is_space c}"
    by (rule set_subset_dropWhile)
  moreover have "set (rev (dropWhile is_space s))
       \<subseteq> set (dropWhile is_space (rev (dropWhile is_space s))) \<union> {c. is_space c}"
    by (rule set_subset_dropWhile)
  ultimately show ?thesis by (auto simp: strip_def)
qed

lemma py_int_chars:
  assumes "py_int s = Inr v"
  shows "\<forall>c\<in>set s. is_digit c \<or> is_space c \<or> c = CHR ''+'' \<or> c = CHR ''-'' \<or> c = CHR ''_''"
proof -
  have "\<forall>c\<in>set (strip s). is_digit c \<or> c = CHR ''+'' \<or> c = CHR ''-'' \<or> c = CHR ''_''"
  proof (cases "strip s")
    case Nil
    then show ?thesis by simp
  next
    case (Cons c cs)
    show ?thesis
    proof (cases "c = CHR ''-'' \<or> c = CHR ''+''")
      case True
      then obtain n where "digits_value 0 cs = Some n"
        using assms Cons
        by (cases "digits_value 0 cs") (auto simp add: py_int_def simp del: digits_value.simps)
      then have "\<forall>c\<in>set cs. is_digit c \<or> c = CHR ''_''" by (rule digits_value_chars)
      with True Cons show ?thesis by auto
    next
      case False
      then obtain n where "digits_value 0 (c # cs) = Some n"
        using assms Cons
        by (cases "digits_value 0 (c # cs)") (auto simp add: py_int_def simp del: digits_value.simps)
      then have "\<forall>c\<in>set (c # cs). is_digit c \<or> c = CHR ''_''" by (rule digits_value_chars)
      with Cons show ?thesis by auto
    qed
  qed
  then show ?thesis using set_subset_strip [of s] by auto
qed

lemma py_int_nonneg:
  assumes "py_int s = Inr v" "CHR ''-'' \<notin> set s"
  shows "0 \<le> v"
proof (cases "strip s")
  case Nil
  with assms(1) show ?thesis by (simp add: py_int_def)
next
  case (Cons c cs)
  then have "c \<noteq> CHR ''-''" using assms(2) set_strip_subset [of s] by auto
  with assms(1) Cons show ?thesis
    by (cases "digits_value 0 cs"; cases "digits_value 0 (c # cs)")
       (auto simp add: py_int_def simp del: digits_value.simps split: if_splits)
qed

section \<open>The chunk loop and the bounds of a parsed range\<close>

lemma take_then_drop_rest: "take k xs @ drop (length (take k xs)) xs = xs"
proof (cases "k \<le> length xs")
  case True
  then show ?thesis by (simp add: min_absorb2)
next
  case False
  then show ?thesis by simp
qed

lemma read_chunks_concat:
  "chunk_size \<noteq> 0 \<Longrightarrow> concat (read_chunks f chunk_size) = drop (cursor f) (contents f)"
proof (induction f chunk_size rule: read_chunks.induct)
  case (1 f n)
  let ?rest = "drop (cursor f) (contents f)"
  let ?chunk = "if n < 0 then ?rest else take (nat n) ?rest"
  let ?f' = "f\<lparr>cursor := cursor f + length ?chunk\<rparr>"
  have rd: "f_read f n = (?chunk, ?f')" by (simp add: f_read_def Let_def)
  show ?case
  proof (cases "?chunk = []")
    case True
    with "1.prems" have "?rest = []" by (auto split: if_splits)
    with True rd show ?thesis by (subst read_chunks.simps) simp
  next
    case False
    have "concat (read_chunks ?f' n) = drop (cursor ?f') (contents ?f')"
      using "1.IH" [OF rd [symmetric] False] "1.prems" by simp
    moreover have "drop (cursor ?f') (contents ?f') = drop (cursor f + length ?chunk) (contents f)"
      by simp
    moreover have "drop (length ?chunk) ?rest = drop (cursor f + length ?chunk) (contents f)"
      by (simp only: drop_drop add.commute [of "length ?chunk" "cursor f"])
    ultimately have "concat (read_chunks ?f' n) = drop (length ?chunk) ?rest"
      by (simp only:)
    moreover have "?chunk @ drop (length ?chunk) ?rest = ?rest"
      by (cases "n < 0") (simp_all only: if_True if_False take_then_drop_rest append_Nil2 drop_all order_refl)
    moreover have "read_chunks f n = ?chunk # read_chunks ?f' n"
      using rd False by (subst read_chunks.simps) simp
    ultimately show ?thesis by simp
  qed
qed

lemma read_chunks_single:
  assumes "cursor f < length (contents f)" "int (length (contents f) - cursor f) \<le> n"
  shows "read_chunks f n = [drop (cursor f) (contents f)]"
proof -
  let ?rest = "drop (cursor f) (contents f)"
  let ?f' = "f\<lparr>cursor := cursor f + length ?rest\<rparr>"
  have n: "0 < n" using assms by linarith
  have "take (nat n) ?rest = ?rest" using assms by simp
  with n have rd: "f_read f n = (?rest, ?f')" by (simp add: f_read_def Let_def)
  have "f_read ?f' n = ([], ?f')" using assms n by (simp add: f_read_def Let_def)
  then have "read_chunks ?f' n = []" by (subst read_chunks.simps) simp
  moreover have "?rest \<noteq> []" using assms by simp
  ultimately show ?thesis using rd by (subst read_chunks.simps) simp
qed

lemma read_chunks_eof: "length (contents f) \<le> cursor f \<Longrightarrow> read_chunks f n = []"
  by (subst read_chunks.simps) (simp add: f_read_def Let_def)

lemma get_range_header_try_bounds:
  assumes "get_range_header_try h fs = Inr (s, e, p)"
  shows "p \<and> 0 \<le> s \<and> s \<le> e \<and> e < fs"
proof -
  let ?r = "py_replace ''bytes='' [] h"
  let ?s = "takeWhile (\<lambda>c. c \<noteq> CHR ''-'') ?r"
  let ?e = "drop (Suc (length ?s)) ?r"
  have one: "count_list ?r CHR ''-'' = 1"
    using assms get_range_header_try_many [of h fs] by auto
  note t = get_range_header_try_two [OF one, of fs]
  obtain sv where sv: "py_int ?s = Inr sv"
    using assms t by (cases "py_int ?s") auto
  obtain ev where ev: "(if ?e \<noteq> [] then py_int ?e else Inr (fs - 1)) = Inr ev"
    using assms t sv by (cases "if ?e \<noteq> [] then py_int ?e else Inr (fs - 1)") auto
  have "CHR ''-'' \<notin> set ?s" by (auto dest: set_takeWhileD)
  with sv have "0 \<le> sv" by (rule py_int_nonneg)
  moreover have "(if sv \<ge> fs \<or> ev \<ge> fs \<or> sv > ev
          then Inl (HTTPException 416 ''Invalid range'')
          else Inr (sv, ev, True)) = Inr (s, e, p)"
    using assms t sv ev by simp
  ultimately show ?thesis by (auto split: if_splits)
qed

lemma get_range_header_cases:
  "(\<exists>s e. get_range_header h fs = (s, e, True) \<and> 0 \<le> s \<and> s \<le> e \<and> e < fs
       \<and> get_range_header_try h fs = Inr (s, e, True))
   \<or> (get_range_header h fs = (0, fs - 1, False) \<and> isl (get_range_header_try h fs))"
proof (cases "get_range_header_try h fs")
  case (Inl x)
  then show ?thesis by (simp add: get_range_header_def)
next
  case (Inr r)
  obtain s e p where r: "r = (s, e, p)" by (cases r) auto
  with Inr get_range_header_try_bounds [of h fs s e p] show ?thesis
    by (simp add: get_range_header_def)
qed

lemma requested_range_bounds:
  assumes "requested_range rng fs = (s, e, p)"
  shows "(p \<longrightarrow> 0 \<le> s \<and> s \<le> e \<and> e < fs) \<and> (\<not> p \<longrightarrow> s = 0 \<and> e = fs - 1)"
proof (cases "truthy rng")
  case False
  with assms show ?thesis by (simp add: requested_range_def)
next
  case True
  with assms have "get_range_header (the rng) fs = (s, e, p)" by (simp add: requested_range_def)
  with get_range_header_cases [of "the rng" fs] show ?thesis by auto
qed

section \<open>The response of \<open>view_file\<close>\<close>

lemma view_file_unfold:
  assumes "lookup h (resolve h p) = Some (File d)"
    and "requested_range rng (int (length d)) = (s, e, part)"
  shows "view_file h p rng =
     Inr \<lparr>status_code = (if part then 206 else 200),
          headers =
            (if part
             then [''Content-Type'' \<mapsto> (if truthy (guess_type h (resolve h p))
                                        then the (guess_type h (resolve h p))
                                        else ''application/octet-stream''),
                   ''Accept-Ranges'' \<mapsto> ''bytes'',
                   ''Content-Length'' \<mapsto> py_str (e - s + 1),
                   ''Content-Range'' \<mapsto>
                      ''bytes '' @ py_str s @ ''-'' @ py_str e @ ''/'' @ py_str (int (length d))]
             else [''Content-Type'' \<mapsto> (if truthy (guess_type h (resolve h p))
                                        then the (guess_type h (resolve h p))
                                        else ''application/octet-stream''),
                   ''Accept-Ranges'' \<mapsto> ''bytes'',
                   ''Content-Length'' \<mapsto> py_str (e - s + 1)]),
          content = async_iterate_file_chunks h (resolve h p) s default_chunk_size\<rparr>"
  using assms by (simp add: view_file_def Let_def)

lemma view_file_Inr_iff:
  "(\<exists>r. view_file h p rng = Inr r) \<longleftrightarrow> (\<exists>d. lookup h (resolve h p) = Some (File d))"
proof (cases "lookup h (resolve h p)")
  case None
  then show ?thesis by (simp add: view_file_def Let_def)
next
  case (Some nd)
  show ?thesis
  proof (cases nd)
    case (File d)
    obtain s e part where "requested_range rng (int (length d)) = (s, e, part)"
      by (cases "requested_range rng (int (length d))") auto
    with Some File view_file_unfold [of h p d rng s e part] show ?thesis by simp
  next
    case Directory
    with Some show ?thesis by (simp add: view_file_def Let_def)
  qed
qed

lemma async_iterate_file:
  assumes "lookup h fp = Some (File d)" "0 \<le> s"
  shows "async_iterate_file_chunks h fp s n = Inr (read_chunks \<lparr>contents = d, cursor = nat s\<rparr> n)"
  using assms by (simp add: async_iterate_file_chunks_def open_rb_def f_seek_def)

lemma requested_range_start:
  assumes "requested_range rng fs = (s, e, part)"
  shows "0 \<le> s"
  using requested_range_bounds [OF assms] by (cases part) auto

lemma view_file_content:
  assumes "lookup h (resolve h p) = Some (File d)"
    and "requested_range rng (int (length d)) = (s, e, part)"
  shows "\<exists>r chunks. view_file h p rng = Inr r \<and> content r = Inr chunks
           \<and> concat chunks = drop (nat s) d"
proof -
  have s: "0 \<le> s" using assms(2) by (rule requested_range_start)
  have "concat (read_chunks \<lparr>contents = d, cursor = nat s\<rparr> default_chunk_size) = drop (nat s) d"
    using read_chunks_concat [of default_chunk_size "\<lparr>contents = d, cursor = nat s\<rparr>"]
    by (simp add: default_chunk_size_def)
  then show ?thesis
    using view_file_unfold [OF assms] async_iterate_file [OF assms(1) s] by simp
qed

lemmas parse_eval =
  get_range_header_def get_range_header_try_def py_replace_def py_split_def py_int_def
  strip_def is_space_def is_digit_def digit_val_def requested_range_def truthy_def

lemmas str_eval = py_str_def digits_of.simps digit_char_def

lemma sample_lookup:
  "lookup (sample_host d) (resolve (sample_host d) ''movie.mkv'') = Some (File d)"
  by (simp add: sample_host_def)

section \<open>Open-ended and non-numeric headers\<close>

lemma py_str_nonneg_digits:
  "0 \<le> i \<Longrightarrow> py_str i \<noteq> [] \<and> (\<forall>c\<in>set (py_str i). is_digit c)"
  using digits_of_not_Nil digits_of_digits by (simp add: py_str_def)

lemma open_ended_parse:
  assumes "ds \<noteq> []" "\<forall>c\<in>set ds. is_digit c" "int (decimal 0 ds) < file_size"
  shows "get_range_header_try (''bytes='' @ ds @ ''-'') file_size
           = Inr (int (decimal 0 ds), file_size - 1, True)"
proof -
  have nb: "CHR ''b'' \<notin> set (ds @ ''-'')" and nd: "CHR ''-'' \<notin> set ds"
    using assms(2) is_digit_not_special by auto
  have "py_replace ''bytes='' [] (''bytes='' @ ds @ ''-'') = replace_scan ''bytes='' [] (ds @ ''-'')"
    by (rule py_replace_prefixed)
  also have "\<dots> = ds @ ''-''" using nb by (rule replace_scan_no_b)
  finally have r: "py_replace ''bytes='' [] (''bytes='' @ ds @ ''-'') = ds @ ''-''" .
  have sp: "split_scan ''-'' (ds @ ''-'') = [ds, []]"
    using split_dash_first [OF nd, of "[]"] by simp
  have i: "py_int ds = Inr (int (decimal 0 ds))" using assms(1,2) by (rule py_int_digits)
  show ?thesis
    unfolding get_range_header_try_def r
    using sp i assms(3) by (simp add: py_split_def)
qed

lemma dash_decompose:
  assumes "count_list r CHR ''-'' = 1"
  shows "r = takeWhile (\<lambda>c. c \<noteq> CHR ''-'') r @ CHR ''-'' #
               drop (Suc (length (takeWhile (\<lambda>c. c \<noteq> CHR ''-'') r))) r"
proof -
  let ?a = "takeWhile (\<lambda>c. c \<noteq> CHR ''-'') r"
  let ?b = "drop (Suc (length ?a)) r"
  have "CHR ''-'' \<in> set r" using assms by (metis count_list_0_iff zero_neq_one)
  then have ne: "dropWhile (\<lambda>c. c \<noteq> CHR ''-'') r \<noteq> []"
    by (simp add: dropWhile_eq_Nil_conv)
  then have hd: "hd (dropWhile (\<lambda>c. c \<noteq> CHR ''-'') r) = CHR ''-''"
    using hd_dropWhile [of "\<lambda>c. c \<noteq> CHR ''-''" r] by simp
  have "?b = tl (dropWhile (\<lambda>c. c \<noteq> CHR ''-'') r)"
    by (simp add: dropWhile_eq_drop drop_Suc tl_drop)
  with ne hd have "dropWhile (\<lambda>c. c \<noteq> CHR ''-'') r = CHR ''-'' # ?b"
    by (metis list.collapse)
  then show ?thesis by (metis takeWhile_dropWhile_id)
qed

lemma dash_decompose_mem:
  assumes "count_list r CHR ''-'' = 1" "c \<in> set r" "c \<noteq> CHR ''-''"
  shows "c \<in> set (takeWhile (\<lambda>c. c \<noteq> CHR ''-'') r)
       \<or> c \<in> set (drop (Suc (length (takeWhile (\<lambda>c. c \<noteq> CHR ''-'') r))) r)"
proof -
  let ?a = "takeWhile (\<lambda>c. c \<noteq> CHR ''-'') r"
  let ?b = "drop (Suc (length ?a)) r"
  have "set r = set (?a @ CHR ''-'' # ?b)"
    using dash_decompose [OF assms(1)] by (rule arg_cong)
  then have "set r = set ?a \<union> {CHR ''-''} \<union> set ?b" by (simp only: set_append list.set) auto
  with assms(2,3) show ?thesis by blast
qed

lemma non_numeric_malformed:
  assumes "c \<in> set (py_replace ''bytes='' [] h)"
    and "\<not> is_digit c" "\<not> is_space c" "c \<noteq> CHR ''+''" "c \<noteq> CHR ''-''" "c \<noteq> CHR ''_''"
  shows "malformed h"
proof (rule ccontr)
  assume nm: "\<not> malformed h"
  let ?r = "py_replace ''bytes='' [] h"
  let ?s = "takeWhile (\<lambda>c. c \<noteq> CHR ''-'') ?r"
  let ?e = "drop (Suc (length ?s)) ?r"
  from nm have one: "count_list ?r CHR ''-'' = 1"
    and s: "\<not> isl (py_int ?s)" and e: "?e = [] \<or> \<not> isl (py_int ?e)"
    by (auto simp: malformed_def Let_def)
  have "c \<in> set ?s \<or> c \<in> set ?e"
    using one assms(1,5) by (rule dash_decompose_mem)
  then show False
  proof
    assume cs: "c \<in> set ?s"
    from s obtain v where "py_int ?s = Inr v" by (cases "py_int ?s") auto
    from py_int_chars [OF this] cs assms show False by blast
  next
    assume ce: "c \<in> set ?e"
    then have "?e \<noteq> []" by auto
    with e obtain v where "py_int ?e = Inr v" by (cases "py_int ?e") auto
    from py_int_chars [OF this] ce assms show False by blast
  qed
qed

section \<open>The claims\<close>

text \<open>
  C10.  For every file size and every header of the suffix form \<open>bytes=-N\<close> (whatever
  follows the dash), the \<open>try\<close> block raises \<open>ValueError\<close> (the start string is empty and
  \<open>int('')\<close> fails), the handler catches it, and the parser returns the full-file
  default \<open>(0, file_size - 1, False)\<close>: the last-N-bytes reading is never applied.
\<close>

theorem suffix_range_is_default:
  "get_range_header_try (''bytes=-'' @ n) file_size = Inl ValueError \<and>
   py_int [] = Inl ValueError \<and>
   get_range_header (''bytes=-'' @ n) file_size = (0, file_size - 1, False)"
  using suffix_form_raises [of n file_size] by (simp add: get_range_header_def py_int_empty)

text \<open>
  C3, as stated, fails in its last clause: a range can be partial and cover the whole
  file.  For \<open>bytes=0-\<close> on a file of 10 bytes the parser returns \<open>(0, 9, True)\<close>, so the
  response has status 206 and its \<open>Content-Length\<close> is the total file size.
\<close>

theorem partial_range_with_total_length:
  "\<exists>r. view_file (sample_host (map of_nat [0..<10])) ''movie.mkv'' (Some ''bytes=0-'') = Inr r
     \<and> requested_range (Some ''bytes=0-'') 10 = (0, 9, True)
     \<and> status_code r = 206
     \<and> headers r ''Content-Length'' = Some ''10''
     \<and> headers r ''Content-Length''
           = Some (py_str (int (length (map of_nat [0..<10] :: byte list))))"
proof -
  have q: "requested_range (Some ''bytes=0-'') 10 = (0, 9, True)"
    by (simp add: parse_eval)
  then have rr: "requested_range (Some ''bytes=0-'') (int (length (map of_nat [0..<10] :: byte list)))
              = (0, 9, True)"
    by simp
  have st: "py_str (9 - 0 + 1) = ''10''"
    "py_str (int (length (map of_nat [0..<10] :: byte list))) = ''10''"
    by (simp_all add: str_eval)
  show ?thesis
    using view_file_unfold [OF sample_lookup rr] q st by simp
qed

text \<open>
  C3, amended.  Whenever the resolved path is a regular file, \<open>view_file\<close> answers; the
  status is 206 exactly when the resolved range is partial and 200 otherwise, and
  \<open>Content-Length\<close> is \<open>end - start + 1\<close> of the resolved range.  That number is the file
  size when the range is not partial.  When the range is partial, it differs from the
  file size if the range is a proper part of the file (\<open>start \<noteq> 0\<close> or
  \<open>end \<noteq> fileSize - 1\<close>) and is the file size if the range covers the whole file.
\<close>

theorem view_file_status_and_length:
  assumes "lookup h (resolve h p) = Some (File d)"
    and "requested_range rng (int (length d)) = (s, e, part)"
  shows "\<exists>r. view_file h p rng = Inr r
      \<and> status_code r = (if part then 206 else 200)
      \<and> headers r ''Content-Length'' = Some (py_str (e - s + 1))
      \<and> (\<not> part \<longrightarrow> e - s + 1 = int (length d))
      \<and> (part \<and> (s \<noteq> 0 \<or> e \<noteq> int (length d) - 1)
            \<longrightarrow> headers r ''Content-Length'' \<noteq> Some (py_str (int (length d))))
      \<and> (part \<and> s = 0 \<and> e = int (length d) - 1
            \<longrightarrow> headers r ''Content-Length'' = Some (py_str (int (length d))))"
proof -
  note b = requested_range_bounds [OF assms(2)]
  have full: "\<not> part \<longrightarrow> e - s + 1 = int (length d)" using b by auto
  have proper: "part \<and> (s \<noteq> 0 \<or> e \<noteq> int (length d) - 1) \<longrightarrow> e - s + 1 \<noteq> int (length d)"
    using b by auto
  have whole: "part \<and> s = 0 \<and> e = int (length d) - 1 \<longrightarrow> e - s + 1 = int (length d)"
    by auto
  have inj: "e - s + 1 \<noteq> int (length d) \<Longrightarrow> py_str (e - s + 1) \<noteq> py_str (int (length d))"
    using py_str_inject by blast
  show ?thesis
    using view_file_unfold [OF assms] full proper whole inj by auto
qed

theorem view_file_status_and_length_witness:
  "\<exists>r. view_file (sample_host (map of_nat [0..<10])) ''movie.mkv'' (Some ''bytes=2-5'') = Inr r
     \<and> status_code r = 206 \<and> headers r ''Content-Length'' = Some ''4''
     \<and> headers r ''Content-Length'' \<noteq> Some ''10''"
proof -
  have rr: "requested_range (Some ''bytes=2-5'') (int (length (map of_nat [0..<10] :: byte list)))
              = (2, 5, True)"
    by (simp add: parse_eval)
  have "py_str (5 - 2 + 1) = ''4''" "py_str (int (length (map of_nat [0..<10] :: byte list))) = ''10''"
    by (simp_all add: str_eval)
  then show ?thesis
    using view_file_status_and_length [OF sample_lookup rr] by simp
qed

text \<open>
  C7.  Every response of \<open>view_file\<close> carries \<open>Accept-Ranges: bytes\<close>; it carries
  \<open>Content-Range\<close>, with the value \<open>bytes {start}-{end}/{fileSize}\<close>, exactly when its
  status is 206, that is, when the resolved range is partial.
\<close>

theorem view_file_range_headers:
  assumes "lookup h (resolve h p) = Some (File d)"
    and "requested_range rng (int (length d)) = (s, e, part)"
  shows "\<exists>r. view_file h p rng = Inr r
      \<and> headers r ''Accept-Ranges'' = Some ''bytes''
      \<and> status_code r = (if part then 206 else 200)
      \<and> headers r ''Content-Range'' =
            (if status_code r = 206
             then Some (''bytes '' @ py_str s @ ''-'' @ py_str e @ ''/'' @ py_str (int (length d)))
             else None)"
  using view_file_unfold [OF assms] by simp

theorem view_file_range_headers_witness:
  "(\<exists>r. view_file (sample_host (map of_nat [0..<10])) ''movie.mkv'' (Some ''bytes=2-5'') = Inr r
      \<and> headers r ''Accept-Ranges'' = Some ''bytes'' \<and> status_code r = 206
      \<and> headers r ''Content-Range'' = Some ''bytes 2-5/10'')
   \<and> (\<exists>r. view_file (sample_host (map of_nat [0..<10])) ''movie.mkv'' None = Inr r
      \<and> headers r ''Accept-Ranges'' = Some ''bytes'' \<and> status_code r = 200
      \<and> headers r ''Content-Range'' = None)"
proof -
  have rr: "requested_range (Some ''bytes=2-5'') (int (length (map of_nat [0..<10] :: byte list)))
              = (2, 5, True)"
    by (simp add: parse_eval)
  have rn: "requested_range None (int (length (map of_nat [0..<10] :: byte list)))
              = (0, 9, False)"
    by (simp add: parse_eval)
  have "py_str 2 = ''2''" "py_str 5 = ''5''"
       "py_str (int (length (map of_nat [0..<10] :: byte list))) = ''10''"
    by (simp_all add: str_eval)
  then show ?thesis
    using view_file_range_headers [OF sample_lookup rr] view_file_range_headers [OF sample_lookup rn]
    by auto
qed

text \<open>
  C9.  A zero-byte file requested without a range: the default range is
  \<open>(0, -1, False)\<close>, the end is negative, and still the answer has status 200,
  \<open>Content-Length\<close> \<open>0\<close>, no \<open>Content-Range\<close> and an empty body.
\<close>

theorem empty_file_view:
  assumes "lookup h (resolve h p) = Some (File [])"
  shows "requested_range None 0 = (0, - 1, False)
     \<and> (\<exists>r. view_file h p None = Inr r \<and> status_code r = 200
            \<and> headers r ''Content-Length'' = Some ''0''
            \<and> headers r ''Content-Range'' = None
            \<and> content r = Inr [])"
proof -
  have rn: "requested_range None (int (length ([] :: byte list))) = (0, - 1, False)"
    by (simp add: requested_range_def truthy_def)
  have z: "py_str (- 1 - 0 + 1) = ''0''" by (simp add: str_eval)
  have c: "async_iterate_file_chunks h (resolve h p) 0 default_chunk_size = Inr []"
    using async_iterate_file [OF assms, of 0 default_chunk_size] by (simp add: read_chunks_eof)
  show ?thesis
    using view_file_unfold [OF assms rn] rn z c by simp
qed

theorem empty_file_view_witness:
  "\<exists>r. view_file (sample_host []) ''movie.mkv'' None = Inr r \<and> status_code r = 200
        \<and> headers r ''Content-Length'' = Some ''0'' \<and> content r = Inr []"
  using empty_file_view [OF sample_lookup [of "[]"]] by auto

text \<open>
  C6.  An open-ended header \<open>bytes=<start>-\<close> whose start (written in decimal) lies
  inside the file parses to \<open>(start, fileSize - 1, True)\<close>: the end defaults to the last
  byte.  For a file of 10,000 bytes and \<open>bytes=9990-\<close> the end is 9999 and the response
  declares \<open>Content-Length: 10\<close>.
\<close>

theorem open_ended_range_end:
  assumes "0 \<le> start" "start < file_size"
  shows "get_range_header (''bytes='' @ py_str start @ ''-'') file_size
           = (start, file_size - 1, True)
     \<and> get_range_header ''bytes=9990-'' 10000 = (9990, 9999, True)
     \<and> (\<exists>r. view_file (sample_host (replicate 10000 0)) ''movie.mkv'' (Some ''bytes=9990-'') = Inr r
            \<and> status_code r = 206
            \<and> headers r ''Content-Length'' = Some ''10'')"
proof -
  have d: "decimal 0 (py_str start) = nat start"
    using assms(1) by (simp add: py_str_def decimal_digits_of)
  have "get_range_header_try (''bytes='' @ py_str start @ ''-'') file_size
           = Inr (start, file_size - 1, True)"
    using open_ended_parse [of "py_str start" file_size] py_str_nonneg_digits [OF assms(1)] assms d
    by simp
  then have g: "get_range_header (''bytes='' @ py_str start @ ''-'') file_size
           = (start, file_size - 1, True)"
    by (simp add: get_range_header_def)
  have c: "get_range_header ''bytes=9990-'' 10000 = (9990, 9999, True)"
    by (simp add: parse_eval)
  have rr: "requested_range (Some ''bytes=9990-'') (int (length (replicate 10000 (0::byte))))
              = (9990, 9999, True)"
    using c by (simp add: requested_range_def truthy_def)
  have "py_str (9999 - 9990 + 1) = ''10''" by (simp add: str_eval)
  then have v: "\<exists>r. view_file (sample_host (replicate 10000 0)) ''movie.mkv'' (Some ''bytes=9990-'') = Inr r
            \<and> status_code r = 206
            \<and> headers r ''Content-Length'' = Some ''10''"
    using view_file_unfold [OF sample_lookup rr] by simp
  from g c v show ?thesis by simp
qed

theorem open_ended_range_end_witness:
  "(0::int) \<le> 42 \<and> (42::int) < 100 \<and> get_range_header ''bytes=42-'' 100 = (42, 99, True)"
proof -
  have "py_str 42 = ''42''" by (simp add: str_eval)
  then show ?thesis using open_ended_range_end [of 42 100] by simp
qed




text \<open>
  C1.  What the code does on the scenario of the claim, a file of 10,000 bytes (byte
  \<open>i\<close> holding \<open>i mod 256\<close>) requested with \<open>bytes=5000-5999\<close>: the response declares
  status 206, \<open>Content-Length: 1000\<close> and \<open>Content-Range: bytes 5000-5999/10000\<close>, but the
  generator is given the start only and reads to the end of the file, so the body is the
  single chunk of the 5000 bytes 5000..9999.  Its first 1000 bytes are the requested
  slice; the body is not.  (For every file and range, \<open>view_file_content\<close> gives the body
  as the bytes from \<open>start\<close> to the end of the file.)
\<close>

theorem range_body_runs_to_end_of_file:
  "\<exists>r. view_file (sample_host (map of_nat [0..<10000])) ''movie.mkv'' (Some ''bytes=5000-5999'') = Inr r
     \<and> status_code r = 206
     \<and> headers r ''Content-Length'' = Some ''1000''
     \<and> headers r ''Content-Range'' = Some ''bytes 5000-5999/10000''
     \<and> content r = Inr [map of_nat [5000..<10000]]
     \<and> length (concat [map of_nat [5000..<10000] :: byte list]) = 5000
     \<and> take 1000 (concat [map of_nat [5000..<10000] :: byte list]) = map of_nat [5000..<6000]
     \<and> concat [map of_nat [5000..<10000] :: byte list] \<noteq> map of_nat [5000..<6000]"
proof -
  define d :: "byte list" where "d = map of_nat [0..<10000]"
  define body :: "byte list" where "body = map of_nat [5000..<10000]"
  define want :: "byte list" where "want = map of_nat [5000..<6000]"
  have len: "length d = 10000" "length body = 5000" "length want = 1000"
    by (simp_all add: d_def body_def want_def del: upt_rec_numeral)
  have dr: "drop 5000 d = body"
    by (simp add: d_def body_def drop_map del: upt_rec_numeral)
  have tk: "take 1000 body = want"
    by (simp add: body_def want_def take_map del: upt_rec_numeral)
  have ne: "body \<noteq> want" using len by auto
  have rr: "requested_range (Some ''bytes=5000-5999'') (int (length d)) = (5000, 5999, True)"
    unfolding len by (simp add: parse_eval)
  have st: "py_str (5999 - 5000 + 1) = ''1000''" "py_str 5000 = ''5000''" "py_str 5999 = ''5999''"
    "py_str (int (length d)) = ''10000''"
    unfolding len by (simp_all add: str_eval)
  have "read_chunks \<lparr>contents = d, cursor = nat 5000\<rparr> default_chunk_size
          = [drop (cursor \<lparr>contents = d, cursor = nat 5000\<rparr>)
                  (contents \<lparr>contents = d, cursor = nat 5000\<rparr>)]"
    by (rule read_chunks_single) (simp_all add: default_chunk_size_def len)
  then have rc: "read_chunks \<lparr>contents = d, cursor = nat 5000\<rparr> default_chunk_size = [body]"
    by (simp add: dr)
  have c: "async_iterate_file_chunks (sample_host d) (resolve (sample_host d) ''movie.mkv'')
             5000 default_chunk_size = Inr [body]"
    using async_iterate_file [OF sample_lookup, of 5000 d default_chunk_size] rc by simp
  have "\<exists>r. view_file (sample_host d) ''movie.mkv'' (Some ''bytes=5000-5999'') = Inr r
     \<and> status_code r = 206
     \<and> headers r ''Content-Length'' = Some ''1000''
     \<and> headers r ''Content-Range'' = Some ''bytes 5000-5999/10000''
     \<and> content r = Inr [body]
     \<and> length (concat [body]) = 5000
     \<and> take 1000 (concat [body]) = want
     \<and> concat [body] \<noteq> want"
    using view_file_unfold [OF sample_lookup rr] st c ne tk len by simp
  then show ?thesis
    unfolding d_def body_def want_def .
qed

text \<open>
  C2.  What the code does on a range outside the file: the \<open>try\<close> block raises the
  \<open>HTTPException\<close> with status 416, for \<open>start \<ge> fileSize\<close>, for \<open>end \<ge> fileSize\<close> and
  for \<open>start > end\<close> alike, and the handler \<open>except Exception\<close> of the same function
  catches it; the parser returns the full-file default, and \<open>view_file\<close> answers 200
  with the whole file instead of 416.
\<close>

theorem unsatisfiable_range_is_swallowed:
  "get_range_header_try ''bytes=20000-'' 10000 = Inl (HTTPException 416 ''Invalid range'')
   \<and> get_range_header ''bytes=20000-'' 10000 = (0, 9999, False)
   \<and> get_range_header_try ''bytes=0-10000'' 10000 = Inl (HTTPException 416 ''Invalid range'')
   \<and> get_range_header ''bytes=0-10000'' 10000 = (0, 9999, False)
   \<and> get_range_header_try ''bytes=7-3'' 10000 = Inl (HTTPException 416 ''Invalid range'')
   \<and> get_range_header ''bytes=7-3'' 10000 = (0, 9999, False)
   \<and> (\<exists>r. view_file (sample_host (replicate 10000 0)) ''movie.mkv'' (Some ''bytes=20000-'') = Inr r
          \<and> status_code r = 200
          \<and> headers r ''Content-Length'' = Some ''10000''
          \<and> headers r ''Content-Range'' = None)"
proof -
  have t: "get_range_header_try ''bytes=20000-'' 10000 = Inl (HTTPException 416 ''Invalid range'')"
    "get_range_header_try ''bytes=0-10000'' 10000 = Inl (HTTPException 416 ''Invalid range'')"
    "get_range_header_try ''bytes=7-3'' 10000 = Inl (HTTPException 416 ''Invalid range'')"
    by (simp_all add: parse_eval)
  then have g: "get_range_header ''bytes=20000-'' 10000 = (0, 9999, False)"
    "get_range_header ''bytes=0-10000'' 10000 = (0, 9999, False)"
    "get_range_header ''bytes=7-3'' 10000 = (0, 9999, False)"
    by (simp_all add: get_range_header_def)
  have rr: "requested_range (Some ''bytes=20000-'') (int (length (replicate 10000 (0::byte))))
              = (0, 9999, False)"
    using g(1) by (simp add: requested_range_def truthy_def)
  have "py_str (9999 - 0 + 1) = ''10000''" by (simp add: str_eval)
  then have "\<exists>r. view_file (sample_host (replicate 10000 0)) ''movie.mkv'' (Some ''bytes=20000-'') = Inr r
          \<and> status_code r = 200
          \<and> headers r ''Content-Length'' = Some ''10000''
          \<and> headers r ''Content-Range'' = None"
    using view_file_unfold [OF sample_lookup rr] by simp
  with t g show ?thesis by simp
qed

text \<open>
  C5.  What the code does for a file whose type the mime database does not know, here
  \<open>/server.log\<close>: \<open>view_file\<close> goes from the database straight to
  \<open>application/octet-stream\<close>, while \<open>get_file_info\<close> consults its extension table in
  between and reports \<open>text/plain\<close> for the same file.
\<close>

theorem view_file_skips_mime_map:
  "(\<exists>r. view_file (sample_host [1, 2, 3]) ''server.log'' None = Inr r
        \<and> headers r ''Content-Type'' = Some ''application/octet-stream'')
   \<and> guess_type (sample_host [1, 2, 3]) ''/server.log'' = None
   \<and> map_of mime_map (lower (path_suffix ''/server.log'')) = Some ''text/plain''
   \<and> (\<exists>i. get_file_info (sample_host [1, 2, 3]) ''/server.log'' = Inr i
        \<and> mime_type i = Some ''text/plain'')"
proof -
  have rn: "requested_range None (int (length [1, 2, 3 :: byte])) = (0, 2, False)"
    by (simp add: requested_range_def truthy_def)
  have l: "lookup (sample_host [1, 2, 3]) (resolve (sample_host [1, 2, 3]) ''server.log'')
             = Some (File [1, 2, 3])"
    by (simp add: sample_host_def)
  have g: "guess_type (sample_host [1, 2, 3]) (resolve (sample_host [1, 2, 3]) ''server.log'') = None"
    "guess_type (sample_host [1, 2, 3]) ''/server.log'' = None"
    by (simp_all add: sample_host_def)
  have v: "\<exists>r. view_file (sample_host [1, 2, 3]) ''server.log'' None = Inr r
        \<and> headers r ''Content-Type'' = Some ''application/octet-stream''"
    using view_file_unfold [OF l rn] g by (simp add: truthy_def)
  have sfx: "lower (path_suffix ''/server.log'') = ''.log''"
    by (simp add: path_suffix_def path_name_def lower_def lower_char_def Let_def)
  have m: "map_of mime_map ''.log'' = Some ''text/plain''"
    by (simp add: mime_map_def)
  have i: "\<exists>i. get_file_info (sample_host [1, 2, 3]) ''/server.log'' = Inr i
        \<and> mime_type i = Some ''text/plain''"
    using sfx m by (simp add: get_file_info_def sample_host_def truthy_def Let_def)
  from v g sfx m i show ?thesis by simp
qed

end
